theory Spec2Isabelle
  imports Main
begin

section \<open>Bulk Google Trends fetcher: the model of app.py\<close>

subsection \<open>Timeframe string\<close>

text \<open>
  \<^verbatim>\<open>get_timeframe_string(months)\<close>, app.py lines 12-23. The call of
  \<^verbatim>\<open>datetime.now()\<close> on line 14 binds a local that is never read, so the
  function is a function of \<open>months\<close> alone. The three branches are kept in the
  order of the source.
\<close>

definition get_timeframe_string :: "int \<Rightarrow> string" where
  "get_timeframe_string months =
     (if months = 12 then ''today 12-m''
      else if months = 24 then ''today 24-m''
      else ''today 12-m'')"

subsection \<open>Batcher\<close>

text \<open>
  Python's \<^verbatim>\<open>range(start, stop, step)\<close> for a positive step. A step of zero
  raises in Python; the only call below passes the constant 5.
\<close>

function py_range :: "nat \<Rightarrow> nat \<Rightarrow> nat \<Rightarrow> nat list" where
  "py_range start stop step =
     (if 0 < step \<and> start < stop then start # py_range (start + step) stop step else [])"
  by pat_completeness auto
termination
  by (relation "measure (\<lambda>(start, stop, step). stop - start)") auto

declare py_range.simps [simp del]

text \<open>
  The slice \<^verbatim>\<open>xs[i:j]\<close> for \<open>0 \<le> i \<le> j\<close>: Python clips both ends to the
  length of the list, as \<open>drop\<close> and \<open>take\<close> do.
\<close>

definition py_slice :: "'a list \<Rightarrow> nat \<Rightarrow> nat \<Rightarrow> 'a list" where
  "py_slice xs i j = take (j - i) (drop i xs)"

definition chunk_size :: nat where
  "chunk_size = 5"

text \<open>
  Lines 35-36:
  \<^verbatim>\<open>query_chunks = [queries[i:i + chunk_size] for i in range(0, len(queries), chunk_size)]\<close>
\<close>

definition query_chunks :: "'a list \<Rightarrow> 'a list list" where
  "query_chunks queries =
     map (\<lambda>i. py_slice queries i (i + chunk_size)) (py_range 0 (length queries) chunk_size)"

subsection \<open>Query Loader\<close>

text \<open>
  Line 130:
  \<^verbatim>\<open>queries = data.iloc[:, 0].dropna().astype(str).str.strip().tolist()\<close>

  The frame \<^verbatim>\<open>pd.read_csv(uploaded_file, header=None)\<close> returns is given by its
  columns, left to right. A cell is \<open>None\<close> where pandas holds a missing value (NaN)
  and \<open>Some s\<close> otherwise, \<open>s\<close> being the text \<^verbatim>\<open>astype(str)\<close> renders for
  the cell. Exceptions are values of the type \<open>exn\<close>.
\<close>

datatype exn =
    Provider_error string
  | Read_csv_error string
  | IndexError
  | ValueError
  | InvalidIndexError

text \<open>\<^verbatim>\<open>data.iloc[:, 0]\<close>: the first column, an IndexError when there is none.\<close>

definition iloc_col0 :: "'c list list \<Rightarrow> exn + 'c list" where
  "iloc_col0 data = (case data of [] \<Rightarrow> Inl IndexError | col # _ \<Rightarrow> Inr col)"

text \<open>\<^verbatim>\<open>Series.dropna()\<close>: the present cells, in row order.\<close>

fun dropna :: "'a option list \<Rightarrow> 'a list" where
  "dropna [] = []"
| "dropna (None # cells) = dropna cells"
| "dropna (Some v # cells) = v # dropna cells"

text \<open>
  The text the program reads from the upload and works on (cells, queries, column
  names) is Python \<^verbatim>\<open>str\<close>: a sequence of Unicode code points, here a list of
  natural numbers. \<open>str\<close> gives the Python string of an ASCII literal. The fixed
  tokens the program only passes on (the timeframe, the messages of exceptions) stay
  \<open>string\<close>.
\<close>

type_synonym py_str = "nat list"

definition str :: "string \<Rightarrow> py_str" where
  "str s = map of_char s"

text \<open>
  Python's \<^verbatim>\<open>str.isspace\<close> for one code point, the test \<^verbatim>\<open>str.strip()\<close> applies:
  the control characters U+0009-U+000D and U+001C-U+001F, the space U+0020, U+0085,
  U+00A0, U+1680, U+2000-U+200A, U+2028, U+2029, U+202F, U+205F and U+3000.
\<close>

definition py_isspace :: "nat \<Rightarrow> bool" where
  "py_isspace c =
     ((0x09 \<le> c \<and> c \<le> 0x0D) \<or> (0x1C \<le> c \<and> c \<le> 0x20) \<or> c = 0x85 \<or> c = 0xA0 \<or>
      c = 0x1680 \<or> (0x2000 \<le> c \<and> c \<le> 0x200A) \<or> c = 0x2028 \<or> c = 0x2029 \<or>
      c = 0x202F \<or> c = 0x205F \<or> c = 0x3000)"

text \<open>\<^verbatim>\<open>str.strip()\<close>: whitespace removed at both ends.\<close>

definition str_strip :: "py_str \<Rightarrow> py_str" where
  "str_strip s = rev (dropWhile py_isspace (rev (dropWhile py_isspace s)))"

definition load_queries :: "py_str option list \<Rightarrow> py_str list" where
  "load_queries col0 = map str_strip (dropna col0)"

subsection \<open>Tables\<close>

text \<open>
  A pandas DataFrame as the code uses it: the row labels (\<open>index\<close>, the dates) and
  the columns left to right, each a name and one optional cell per row label
  (\<open>None\<close> is NaN). Column names need not be distinct, as in pandas.
\<close>

record ('i, 'v) dataframe =
  index :: "'i list"
  columns :: "(py_str \<times> 'v option list) list"

text \<open>
  Lines 59-60:
  \<^verbatim>\<open>if 'isPartial' in data.columns: data = data.drop(columns=['isPartial'])\<close>
  \<^verbatim>\<open>drop\<close> removes every column that carries the name.
\<close>

definition drop_columns :: "py_str list \<Rightarrow> ('i, 'v) dataframe \<Rightarrow> ('i, 'v) dataframe" where
  "drop_columns names df = df\<lparr>columns := filter (\<lambda>c. fst c \<notin> set names) (columns df)\<rparr>"

definition drop_isPartial :: "('i, 'v) dataframe \<Rightarrow> ('i, 'v) dataframe" where
  "drop_isPartial data =
     (if str ''isPartial'' \<in> set (map fst (columns data))
      then drop_columns [str ''isPartial''] data else data)"

text \<open>
  \<^verbatim>\<open>Index.duplicated()\<close> with its default \<^verbatim>\<open>keep='first'\<close>: the mask is true at
  every label that occurred earlier. \<open>seen\<close> holds the labels met so far.
\<close>

fun duplicated :: "'a list \<Rightarrow> 'a list \<Rightarrow> bool list" where
  "duplicated seen [] = []"
| "duplicated seen (x # xs) = (x \<in> set seen) # duplicated (x # seen) xs"

text \<open>\<^verbatim>\<open>df.loc[:, mask]\<close>: the columns at which the boolean mask is true.\<close>

definition loc_columns :: "bool list \<Rightarrow> ('i, 'v) dataframe \<Rightarrow> ('i, 'v) dataframe" where
  "loc_columns keep df = df\<lparr>columns := map snd (filter fst (zip keep (columns df)))\<rparr>"

text \<open>
  \<^verbatim>\<open>pd.concat(objs, axis=1)\<close> with the default outer join. pandas is a library
  the repository calls, so this is its documented behaviour: tables whose row labels
  all agree are put side by side as they are; otherwise every table is reindexed to
  the union of the row labels (a row a table lacks is filled with NaN), which pandas
  refuses with InvalidIndexError when a table repeats a row label. An empty list
  raises ValueError. The united labels are kept in the order of their first
  occurrence.
\<close>

definition union_indexes :: "'i list list \<Rightarrow> 'i list" where
  "union_indexes ixs =
     map snd (filter (\<lambda>(dup, l). \<not> dup) (zip (duplicated [] (concat ixs)) (concat ixs)))"

definition reindex_cells :: "'i list \<Rightarrow> 'i list \<Rightarrow> 'v option list \<Rightarrow> 'v option list" where
  "reindex_cells old new cells =
     map (\<lambda>l. case map_of (zip old cells) l of None \<Rightarrow> None | Some c \<Rightarrow> c) new"

definition aligned_columns ::
  "'i list \<Rightarrow> ('i, 'v) dataframe \<Rightarrow> (py_str \<times> 'v option list) list" where
  "aligned_columns new df =
     (if index df = new then columns df
      else map (\<lambda>(name, cells). (name, reindex_cells (index df) new cells)) (columns df))"

definition pd_concat_axis1 :: "('i, 'v) dataframe list \<Rightarrow> exn + ('i, 'v) dataframe" where
  "pd_concat_axis1 objs =
     (case objs of
        [] \<Rightarrow> Inl ValueError
      | df0 # rest \<Rightarrow>
          if list_all (\<lambda>df. index df = index df0) rest
          then Inr \<lparr>index = index df0, columns = concat (map columns objs)\<rparr>
          else if list_ex (\<lambda>df. \<not> distinct (index df)) objs
          then Inl InvalidIndexError
          else let new = union_indexes (map index objs)
               in Inr \<lparr>index = new, columns = concat (map (aligned_columns new) objs)\<rparr>)"

text \<open>
  Lines 73-75, the merge of the fetched tables:
  \<^verbatim>\<open>final_df = pd.concat(all_data, axis=1)\<close>
  \<^verbatim>\<open>final_df = final_df.loc[:, ~final_df.columns.duplicated()]\<close>
\<close>

definition merge_all_data :: "('i, 'v) dataframe list \<Rightarrow> exn + ('i, 'v) dataframe" where
  "merge_all_data all_data =
     (case pd_concat_axis1 all_data of
        Inl e \<Rightarrow> Inl e
      | Inr final_df \<Rightarrow>
          Inr (loc_columns (map Not (duplicated [] (map fst (columns final_df)))) final_df))"

subsection \<open>The fetch loop\<close>

text \<open>
  What the user interface and the trends client are asked to do is recorded as a log
  of events, one per call, in the order of the calls. An event that renders an
  f-string carries the values interpolated into it. \<open>Progress_bar_progress k n\<close>
  stands for \<^verbatim>\<open>progress_bar.progress(k / n)\<close>.
\<close>

datatype ('i, 'v) event =
    St_info_fetching nat int
  | St_progress_new
  | St_empty_new
  | Progress_bar_progress nat nat
  | Status_text_text nat nat "py_str list"
  | Build_payload "py_str list" string
  | Interest_over_time
  | St_error_chunk "py_str list" exn
  | Progress_bar_empty
  | Status_text_empty
  | St_error_no_queries
  | St_success_loaded nat
  | St_preview "py_str list"
  | St_button
  | St_subheader int
  | St_success_complete
  | St_dataframe "('i, 'v) dataframe"
  | St_markdown_download
  | St_download_button "('i, 'v) dataframe" int
  | St_warning_no_data
  | St_error_processing exn
  | St_warning_check_csv
  | St_info_waiting
  | St_markdown_example

text \<open>
  The trends client is the environment. For the batch with position \<open>i\<close>, keyword
  list \<open>kw_list\<close> and timeframe \<open>tf\<close> it answers in one of three ways:
  \<^verbatim>\<open>build_payload\<close> raises, \<^verbatim>\<open>interest_over_time\<close> raises, or
  \<^verbatim>\<open>interest_over_time\<close> returns a table. The position is an argument because
  the client is a process-wide object whose answers may depend on the calls before.
\<close>

datatype ('i, 'v) response =
    Build_payload_raises exn
  | Interest_over_time_raises exn
  | Returns "('i, 'v) dataframe"

type_synonym ('i, 'v) trends_client = "nat \<Rightarrow> py_str list \<Rightarrow> string \<Rightarrow> ('i, 'v) response"

text \<open>
  One pass through the body of the loop of lines 45-66, for the pair
  \<open>(i, chunk)\<close> of \<^verbatim>\<open>enumerate(query_chunks)\<close>; \<open>n\<close> is
  \<^verbatim>\<open>len(query_chunks)\<close>. The state is \<open>all_data\<close> and the log.
\<close>

definition fetch_step ::
  "('i, 'v) trends_client \<Rightarrow> string \<Rightarrow> nat \<Rightarrow>
   ('i, 'v) dataframe list \<times> ('i, 'v) event list \<Rightarrow> nat \<times> py_str list \<Rightarrow>
   ('i, 'v) dataframe list \<times> ('i, 'v) event list" where
  "fetch_step client timeframe n st ic =
     (case st of (all_data, log) \<Rightarrow>
      case ic of (i, chunk) \<Rightarrow>
        let log1 = log @ [Progress_bar_progress (i + 1) n, Status_text_text (i + 1) n chunk,
                          Build_payload chunk timeframe]
        in case client i chunk timeframe of
             Build_payload_raises e \<Rightarrow> (all_data, log1 @ [St_error_chunk chunk e])
           | Interest_over_time_raises e \<Rightarrow>
               (all_data, log1 @ [Interest_over_time, St_error_chunk chunk e])
           | Returns data \<Rightarrow>
               (all_data @ [drop_isPartial data], log1 @ [Interest_over_time]))"

text \<open>
  \<^verbatim>\<open>fetch_trends_data(queries, months)\<close>, lines 27-78, run once (the
  \<^verbatim>\<open>st.cache_data\<close> decorator replays a stored run for arguments seen before).
  The result is the log and either the exception that leaves the function or its
  return value, \<open>None\<close> or a table.
\<close>

definition fetch_trends_data ::
  "('i, 'v) trends_client \<Rightarrow> py_str list \<Rightarrow> int \<Rightarrow>
   ('i, 'v) event list \<times> (exn + ('i, 'v) dataframe option)" where
  "fetch_trends_data client queries months =
     (let chunks = query_chunks queries;
          timeframe = get_timeframe_string months;
          (all_data, log) =
             foldl (fetch_step client timeframe (length chunks))
               ([], [St_info_fetching (length queries) months, St_progress_new, St_empty_new])
               (enumerate 0 chunks);
          log2 = log @ [Progress_bar_empty, Status_text_empty]
      in if all_data \<noteq> []
         then (case merge_all_data all_data of
                 Inl e \<Rightarrow> (log2, Inl e)
               | Inr final_df \<Rightarrow> (log2, Inr (Some final_df)))
         else (log2, Inr None))"

subsection \<open>The main content area\<close>

text \<open>
  Lines 123-185 of \<^verbatim>\<open>main\<close>. \<open>uploaded_file\<close> is \<open>None\<close> when nothing was
  uploaded; an uploaded file is given by what \<^verbatim>\<open>pd.read_csv\<close> does with it.
  \<open>pressed\<close> is what \<^verbatim>\<open>st.button\<close> returns and \<open>time_range\<close> what the radio
  selector of the sidebar returns. The page header and the sidebar (lines 82-120)
  precede this and call neither the loader nor the client.
\<close>

datatype upload = Unreadable exn | Parsed "py_str option list list"

definition read_csv :: "upload \<Rightarrow> exn + py_str option list list" where
  "read_csv f = (case f of Unreadable e \<Rightarrow> Inl e | Parsed data \<Rightarrow> Inr data)"

text \<open>The handler of lines 172-174.\<close>

definition on_exception :: "exn \<Rightarrow> ('i, 'v) event list" where
  "on_exception e = [St_error_processing e, St_warning_check_csv]"

definition main_content ::
  "('i, 'v) trends_client \<Rightarrow> bool \<Rightarrow> upload option \<Rightarrow> int \<Rightarrow> ('i, 'v) event list" where
  "main_content client pressed uploaded_file time_range =
     (case uploaded_file of
        None \<Rightarrow> [St_info_waiting, St_markdown_example]
      | Some f \<Rightarrow>
          (case read_csv f of
             Inl e \<Rightarrow> on_exception e
           | Inr data \<Rightarrow>
               (case iloc_col0 data of
                  Inl e \<Rightarrow> on_exception e
                | Inr col0 \<Rightarrow>
                    let queries = load_queries col0
                    in if queries = [] then [St_error_no_queries]
                       else [St_success_loaded (length queries), St_preview queries, St_button] @
                         (if pressed
                          then [St_subheader time_range] @
                            (case fetch_trends_data client queries time_range of
                               (log, Inl e) \<Rightarrow> log @ on_exception e
                             | (log, Inr None) \<Rightarrow> log @ [St_warning_no_data]
                             | (log, Inr (Some final_df)) \<Rightarrow>
                                 log @ [St_success_complete, St_dataframe final_df,
                                        St_markdown_download,
                                        St_download_button final_df time_range])
                          else []))))"

subsection \<open>Reading a log\<close>

text \<open>
  What the properties below observe in a log: the keyword lists handed to
  \<^verbatim>\<open>build_payload\<close>, the per-chunk error messages, the progress reports together
  with the client calls, and the download buttons.
\<close>

definition build_payload_calls :: "('i, 'v) event list \<Rightarrow> py_str list list" where
  "build_payload_calls log =
     concat (map (\<lambda>e. case e of Build_payload kw_list tf \<Rightarrow> [kw_list] | _ \<Rightarrow> []) log)"

definition chunk_errors :: "('i, 'v) event list \<Rightarrow> (py_str list \<times> exn) list" where
  "chunk_errors log =
     concat (map (\<lambda>e. case e of St_error_chunk chunk e \<Rightarrow> [(chunk, e)] | _ \<Rightarrow> []) log)"

definition reports_and_calls :: "('i, 'v) event list \<Rightarrow> ('i, 'v) event list" where
  "reports_and_calls log =
     filter (\<lambda>e. case e of
                  Progress_bar_progress k n \<Rightarrow> True
                | Status_text_text k n chunk \<Rightarrow> True
                | Build_payload kw_list tf \<Rightarrow> True
                | Interest_over_time \<Rightarrow> True
                | St_error_chunk chunk e \<Rightarrow> True
                | _ \<Rightarrow> False) log"

definition download_buttons :: "('i, 'v) event list \<Rightarrow> (('i, 'v) dataframe \<times> int) list" where
  "download_buttons log =
     concat (map (\<lambda>e. case e of St_download_button df t \<Rightarrow> [(df, t)] | _ \<Rightarrow> []) log)"

text \<open>
  The tables of the batches the client answers (the \<^verbatim>\<open>isPartial\<close> column dropped),
  and the chunks and exceptions of the batches it fails, both in batch order.
\<close>

definition successful_tables ::
  "('i, 'v) trends_client \<Rightarrow> string \<Rightarrow> (nat \<times> py_str list) list \<Rightarrow> ('i, 'v) dataframe list" where
  "successful_tables client timeframe batches =
     concat (map (\<lambda>(i, chunk). case client i chunk timeframe of
                                 Returns data \<Rightarrow> [drop_isPartial data] | _ \<Rightarrow> []) batches)"

definition failed_chunks ::
  "('i, 'v) trends_client \<Rightarrow> string \<Rightarrow> (nat \<times> py_str list) list \<Rightarrow> (py_str list \<times> exn) list" where
  "failed_chunks client timeframe batches =
     concat (map (\<lambda>(i, chunk). case client i chunk timeframe of
                                 Build_payload_raises e \<Rightarrow> [(chunk, e)]
                               | Interest_over_time_raises e \<Rightarrow> [(chunk, e)]
                               | Returns data \<Rightarrow> []) batches)"

text \<open>
  The events one batch adds to the log, up to the answer of the client: the progress
  report, the status text and the call of \<^verbatim>\<open>build_payload\<close>.
\<close>

definition batch_report :: "string \<Rightarrow> nat \<Rightarrow> nat \<times> py_str list \<Rightarrow> ('i, 'v) event list" where
  "batch_report timeframe n ic =
     (case ic of (i, chunk) \<Rightarrow>
        [Progress_bar_progress (i + 1) n, Status_text_text (i + 1) n chunk,
         Build_payload chunk timeframe])"

definition batch_answer ::
  "('i, 'v) trends_client \<Rightarrow> string \<Rightarrow> nat \<times> py_str list \<Rightarrow> ('i, 'v) event list" where
  "batch_answer client timeframe ic =
     (case ic of (i, chunk) \<Rightarrow>
        case client i chunk timeframe of
          Build_payload_raises e \<Rightarrow> [St_error_chunk chunk e]
        | Interest_over_time_raises e \<Rightarrow> [Interest_over_time, St_error_chunk chunk e]
        | Returns data \<Rightarrow> [Interest_over_time])"

text \<open>
  The reading of "the report for a batch comes after its fetch": when the progress
  report numbered \<open>k\<close> is issued, at least \<open>k\<close> calls of \<^verbatim>\<open>build_payload\<close> have
  been made. \<open>fetched\<close> counts the calls met so far.
\<close>

fun reports_follow_fetches :: "nat \<Rightarrow> ('i, 'v) event list \<Rightarrow> bool" where
  "reports_follow_fetches fetched [] = True"
| "reports_follow_fetches fetched (e # log) =
     (case e of
        Progress_bar_progress k n \<Rightarrow> k \<le> fetched \<and> reports_follow_fetches fetched log
      | Build_payload kw_list tf \<Rightarrow> reports_follow_fetches (Suc fetched) log
      | _ \<Rightarrow> reports_follow_fetches fetched log)"

text \<open>Two clients for concrete runs: one that answers every batch with a table without
  rows or columns, one that fails every batch.\<close>

definition empty_table_client :: "(nat, int) trends_client" where
  "empty_table_client i kw_list tf = Returns \<lparr>index = [], columns = []\<rparr>"

definition failing_client :: "(nat, int) trends_client" where
  "failing_client i kw_list tf = Interest_over_time_raises (Provider_error ''429'')"

text \<open>
  The log of a run of \<open>fetch_trends_data\<close> in closed form: the three opening events,
  the events of the batches in order, and the two closing events.
\<close>

definition fetch_log ::
  "('i, 'v) trends_client \<Rightarrow> py_str list \<Rightarrow> int \<Rightarrow> ('i, 'v) event list" where
  "fetch_log client queries months =
     [St_info_fetching (length queries) months, St_progress_new, St_empty_new] @
     concat (map (\<lambda>ic. batch_report (get_timeframe_string months) (length (query_chunks queries)) ic @
                        batch_answer client (get_timeframe_string months) ic)
               (enumerate 0 (query_chunks queries))) @
     [Progress_bar_empty, Status_text_empty]"

text \<open>The arguments of the progress reports of a log, as pairs \<open>(k, n)\<close>.\<close>

definition progress_reports :: "('i, 'v) event list \<Rightarrow> (nat \<times> nat) list" where
  "progress_reports log =
     concat (map (\<lambda>e. case e of Progress_bar_progress k n \<Rightarrow> [(k, n)] | _ \<Rightarrow> []) log)"

text \<open>
  The columns line 75 keeps: those whose name has not occurred before, \<open>seen\<close> being
  the names met so far.
\<close>

definition keep_first :: "py_str list \<Rightarrow> (py_str \<times> 'c) list \<Rightarrow> (py_str \<times> 'c) list" where
  "keep_first seen cols =
     map snd (filter fst (zip (map Not (duplicated seen (map fst cols))) cols))"

text \<open>
  A client that fails the first batch and answers every later one with a one-row
  table: a column of 50 per keyword and the \<^verbatim>\<open>isPartial\<close> column.
\<close>

definition first_batch_fails_client :: "(nat, int) trends_client" where
  "first_batch_fails_client i kw_list tf =
     (if i = 0 then Build_payload_raises (Provider_error ''429'')
      else Returns \<lparr>index = [1],
                    columns = map (\<lambda>kw. (kw, [Some 50])) kw_list @ [(str ''isPartial'', [None])]\<rparr>)"

section \<open>Properties\<close>

subsection \<open>Timeframe string\<close>

text \<open>
  C10. \<open>get_timeframe_string\<close> is a total function of the integer it is given:
  it yields \<open>today 24-m\<close> exactly when the input is 24, and \<open>today 12-m\<close> for every
  other input, zero and the negative numbers included.
\<close>

theorem get_timeframe_string_total:
  "(get_timeframe_string months = ''today 24-m'') = (months = 24) \<and>
   (get_timeframe_string months = ''today 12-m'') = (months \<noteq> 24)"
  by (simp add: get_timeframe_string_def)

theorem get_timeframe_string_total_witness:
  "get_timeframe_string 24 = ''today 24-m'' \<and> get_timeframe_string 12 = ''today 12-m'' \<and>
   get_timeframe_string 0 = ''today 12-m'' \<and> get_timeframe_string (- 7) = ''today 12-m''"
  using get_timeframe_string_total [of 24] get_timeframe_string_total [of 12]
    get_timeframe_string_total [of 0] get_timeframe_string_total [of "- 7"]
  by simp

subsection \<open>Batcher\<close>

lemma ceil_div_step:
  fixes k s n :: nat
  assumes "0 < k" and "s < n"
  shows "(n - s + k - 1) div k = Suc ((n - (s + k) + k - 1) div k)"
proof -
  have "n - s + k - 1 = (n - s - 1) + k" using assms by arith
  then have lhs: "(n - s + k - 1) div k = Suc ((n - s - 1) div k)"
    using assms(1) by (simp only: div_add_self2)
  have "(n - (s + k) + k - 1) div k = (n - s - 1) div k"
  proof (cases "s + k \<le> n")
    case True
    then have "n - (s + k) + k - 1 = n - s - 1" by arith
    then show ?thesis by (simp only:)
  next
    case False
    then have "n - (s + k) + k - 1 < k" and "n - s - 1 < k" using assms by arith+
    then show ?thesis by (simp only: div_less)
  qed
  with lhs show ?thesis by (simp only:)
qed

lemma py_range_length:
  "0 < step \<Longrightarrow> length (py_range start stop step) = (stop - start + step - 1) div step"
proof (induction start stop step rule: py_range.induct)
  case (1 start stop step)
  show ?case
  proof (cases "start < stop")
    case True
    have ih: "length (py_range (start + step) stop step) = (stop - (start + step) + step - 1) div step"
      using "1.IH" True \<open>0 < step\<close> by blast
    have unf: "py_range start stop step = start # py_range (start + step) stop step"
      using True \<open>0 < step\<close> by (subst py_range.simps) simp
    show ?thesis
      by (simp only: unf list.size length_Cons ih ceil_div_step [OF \<open>0 < step\<close> True])
  next
    case False
    then have "stop - start + step - 1 < step" using \<open>0 < step\<close> by arith
    then have "(stop - start + step - 1) div step = 0" by (simp only: div_less)
    moreover have "py_range start stop step = []"
      using False by (subst py_range.simps) simp
    ultimately show ?thesis by simp
  qed
qed


lemma py_range_Cons:
  "0 < step \<Longrightarrow> start < stop \<Longrightarrow>
   py_range start stop step = start # py_range (start + step) stop step"
  by (subst py_range.simps) simp

lemma py_range_Nil:
  "\<not> (0 < step \<and> start < stop) \<Longrightarrow> py_range start stop step = []"
  by (subst py_range.simps) simp

lemma py_range_concat:
  "0 < step \<Longrightarrow>
   concat (map (\<lambda>i. py_slice xs i (i + step)) (py_range start (length xs) step)) = drop start xs"
proof (induction start "length xs" step rule: py_range.induct)
  case (1 start step)
  show ?case
  proof (cases "start < length xs")
    case True
    have ih: "concat (map (\<lambda>i. py_slice xs i (i + step)) (py_range (start + step) (length xs) step))
            = drop (start + step) xs"
      using "1.hyps" True \<open>0 < step\<close> by blast
    have "py_slice xs start (start + step) @ drop (start + step) xs = drop start xs"
      unfolding py_slice_def by (metis add.commute add_diff_cancel_left' append_take_drop_id drop_drop)
    then show ?thesis
      by (simp add: py_range_Cons [OF \<open>0 < step\<close> True] ih)
  next
    case False
    then show ?thesis by (simp add: py_range_Nil)
  qed
qed

lemma py_range_slices_full:
  "0 < step \<Longrightarrow>
   \<forall>b \<in> set (butlast (map (\<lambda>i. py_slice xs i (i + step)) (py_range start (length xs) step))).
     length b = step"
proof (induction start "length xs" step rule: py_range.induct)
  case (1 start step)
  show ?case
  proof (cases "start < length xs")
    case True
    have ih: "\<forall>b \<in> set (butlast (map (\<lambda>i. py_slice xs i (i + step))
                 (py_range (start + step) (length xs) step))). length b = step"
      using "1.hyps" True \<open>0 < step\<close> by blast
    show ?thesis
    proof (cases "start + step < length xs")
      case True
      then have "length (py_slice xs start (start + step)) = step"
        by (simp add: py_slice_def)
      with ih show ?thesis
        by (simp add: py_range_Cons [OF \<open>0 < step\<close> \<open>start < length xs\<close>])
    next
      case False
      then have "py_range (start + step) (length xs) step = []"
        by (simp add: py_range_Nil)
      then show ?thesis
        by (simp add: py_range_Cons [OF \<open>0 < step\<close> \<open>start < length xs\<close>])
    qed
  next
    case False
    then show ?thesis by (simp add: py_range_Nil)
  qed
qed

lemma py_range_bound:
  "\<forall>i \<in> set (py_range start stop step). i < stop"
proof (induction start stop step rule: py_range.induct)
  case (1 start stop step)
  show ?case
  proof (cases "0 < step \<and> start < stop")
    case True
    then have "\<forall>i \<in> set (py_range (start + step) stop step). i < stop"
      using "1.IH" by blast
    with True show ?thesis by (simp add: py_range_Cons)
  next
    case False
    then show ?thesis by (simp add: py_range_Nil)
  qed
qed

text \<open>
  C1. For a query list of length \<open>L\<close> the chunking of lines 35-36 yields
  \<open>\<lceil>L / 5\<rceil>\<close> batches (\<open>(L + 4) div 5\<close>); every batch holds at least one and at most
  five queries, every batch but the last holds exactly five, and the batches put end
  to end are the query list.
\<close>

theorem query_chunks_batches:
  "length (query_chunks queries) = (length queries + 4) div 5 \<and>
   (\<forall>b \<in> set (query_chunks queries). length b \<le> 5 \<and> b \<noteq> []) \<and>
   (\<forall>b \<in> set (butlast (query_chunks queries)). length b = 5) \<and>
   concat (query_chunks queries) = queries"
proof -
  have k: "0 < chunk_size" by (simp add: chunk_size_def)
  have "length (query_chunks queries) = (length queries - 0 + chunk_size - 1) div chunk_size"
    unfolding query_chunks_def by (simp only: length_map py_range_length [OF k])
  then have len: "length (query_chunks queries) = (length queries + 4) div 5"
    by (simp add: chunk_size_def)
  have bound: "\<forall>b \<in> set (query_chunks queries). length b \<le> 5 \<and> b \<noteq> []"
  proof
    fix b assume "b \<in> set (query_chunks queries)"
    then obtain i where i: "i \<in> set (py_range 0 (length queries) chunk_size)"
      and b: "b = py_slice queries i (i + chunk_size)"
      unfolding query_chunks_def by auto
    from i py_range_bound have "i < length queries" by blast
    with b show "length b \<le> 5 \<and> b \<noteq> []"
      by (simp add: py_slice_def chunk_size_def)
  qed
  have full: "\<forall>b \<in> set (butlast (query_chunks queries)). length b = chunk_size"
    unfolding query_chunks_def by (rule py_range_slices_full [OF k])
  have cat: "concat (query_chunks queries) = queries"
    unfolding query_chunks_def by (simp only: py_range_concat [OF k] drop_0)
  from len bound full [unfolded chunk_size_def] cat show ?thesis by blast
qed

theorem query_chunks_batches_witness:
  "query_chunks [''pizza recipe'', ''sushi'', ''AI tools'', ''data science'', ''ramen'', ''coffee'']
     = [[''pizza recipe'', ''sushi'', ''AI tools'', ''data science'', ''ramen''], [''coffee'']] \<and>
   length (query_chunks [''pizza recipe'', ''sushi'', ''AI tools'', ''data science'', ''ramen'', ''coffee''])
     = (6 + 4) div 5"
proof -
  have "query_chunks [''pizza recipe'', ''sushi'', ''AI tools'', ''data science'', ''ramen'', ''coffee'']
     = [[''pizza recipe'', ''sushi'', ''AI tools'', ''data science'', ''ramen''], [''coffee'']]"
    by code_simp
  then show ?thesis
    using query_chunks_batches [of "[''pizza recipe'', ''sushi'', ''AI tools'', ''data science'', ''ramen'', ''coffee'']"]
    by simp
qed

subsection \<open>Query Loader\<close>

lemma last_dropWhile_nonempty:
  "dropWhile P xs \<noteq> [] \<Longrightarrow> last (dropWhile P xs) = last xs"
  by (induction xs) (auto split: if_splits)

lemma dropWhile_id_hd: "xs = [] \<or> \<not> P (hd xs) \<Longrightarrow> dropWhile P xs = xs"
  by (cases xs) auto

lemma str_strip_Nil_iff: "str_strip s = [] \<longleftrightarrow> (\<forall>c \<in> set s. py_isspace c)"
proof
  assume "str_strip s = []"
  then have "\<forall>c \<in> set (dropWhile py_isspace s). py_isspace c"
    by (simp add: str_strip_def dropWhile_eq_Nil_conv)
  then have "dropWhile py_isspace s = []"
    by (metis hd_dropWhile hd_in_set)
  then show "\<forall>c \<in> set s. py_isspace c"
    by (simp add: dropWhile_eq_Nil_conv)
next
  assume "\<forall>c \<in> set s. py_isspace c"
  then have d: "dropWhile py_isspace s = []"
    by (simp add: dropWhile_eq_Nil_conv)
  show "str_strip s = []" unfolding str_strip_def d by simp
qed

lemma str_strip_ends:
  assumes "str_strip s \<noteq> []"
  shows "\<not> py_isspace (hd (str_strip s)) \<and> \<not> py_isspace (last (str_strip s))"
proof -
  define t where "t = dropWhile py_isspace s"
  define u where "u = dropWhile py_isspace (rev t)"
  have q: "str_strip s = rev u" by (simp add: str_strip_def t_def u_def)
  from assms q have u: "u \<noteq> []" by simp
  then have t: "t \<noteq> []" by (auto simp: u_def)
  have "\<not> py_isspace (hd t)" using t unfolding t_def by (rule hd_dropWhile)
  moreover have "last u = last (rev t)"
    using u unfolding u_def by (rule last_dropWhile_nonempty)
  moreover have "last (rev t) = hd t" using t by (simp add: last_rev)
  moreover have "hd (rev u) = last u" using u by (simp add: hd_rev)
  ultimately have a: "\<not> py_isspace (hd (str_strip s))" by (simp add: q)
  have "\<not> py_isspace (hd u)" using u unfolding u_def by (rule hd_dropWhile)
  moreover have "last (rev u) = hd u" using u by (simp add: last_rev)
  ultimately have b: "\<not> py_isspace (last (str_strip s))" by (simp add: q)
  from a b show ?thesis ..
qed

lemma str_strip_idem: "str_strip (str_strip s) = str_strip s"
proof (cases "str_strip s = []")
  case True
  have "str_strip [] = []" by (simp add: str_strip_def)
  with True show ?thesis by simp
next
  case False
  define q where "q = str_strip s"
  from False str_strip_ends have e: "\<not> py_isspace (hd q)" "\<not> py_isspace (last q)"
    unfolding q_def by blast+
  from False have ne: "q \<noteq> []" by (simp add: q_def)
  have 1: "dropWhile py_isspace q = q" using e(1) by (simp add: dropWhile_id_hd)
  have "hd (rev q) = last q" using ne by (simp add: hd_rev)
  then have 2: "dropWhile py_isspace (rev q) = rev q" using e(2) by (simp add: dropWhile_id_hd)
  have "str_strip q = q" unfolding str_strip_def by (simp only: 1 2 rev_rev_ident)
  then show ?thesis by (simp add: q_def)
qed

lemma dropna_filter: "map Some (dropna cells) = filter (\<lambda>c. c \<noteq> None) cells"
  by (induction cells rule: dropna.induct) auto

lemma dropna_append: "dropna (a @ b) = dropna a @ dropna b"
  by (induction a rule: dropna.induct) auto

text \<open>
  C3, as the code has it. The queries are the present cells of the first column, each
  stripped, in row order and with repetitions kept; every query is trimmed (stripping
  it again changes nothing, and a non-empty query neither starts nor ends with
  whitespace, in the sense of \<open>py_isspace\<close>). A query is the empty string exactly when
  its cell holds whitespace only: \<^verbatim>\<open>dropna\<close> runs before \<^verbatim>\<open>strip\<close>, so such a cell is kept.
\<close>

theorem load_queries_trimmed:
  "length (load_queries col0) = length (filter (\<lambda>c. c \<noteq> None) col0) \<and>
   map Some (load_queries col0) = map (map_option str_strip) (filter (\<lambda>c. c \<noteq> None) col0) \<and>
   (\<forall>q \<in> set (load_queries col0).
      str_strip q = q \<and> (q \<noteq> [] \<longrightarrow> \<not> py_isspace (hd q) \<and> \<not> py_isspace (last q))) \<and>
   (\<forall>i < length (dropna col0).
      (load_queries col0 ! i = []) = (\<forall>c \<in> set (dropna col0 ! i). py_isspace c))"
proof -
  have f: "filter (\<lambda>c. c \<noteq> None) col0 = map Some (dropna col0)"
    by (simp only: dropna_filter)
  have 1: "length (load_queries col0) = length (filter (\<lambda>c. c \<noteq> None) col0)"
    unfolding f load_queries_def by simp
  have 2: "map Some (load_queries col0) = map (map_option str_strip) (filter (\<lambda>c. c \<noteq> None) col0)"
    unfolding f load_queries_def by simp
  have 3: "\<forall>q \<in> set (load_queries col0).
      str_strip q = q \<and> (q \<noteq> [] \<longrightarrow> \<not> py_isspace (hd q) \<and> \<not> py_isspace (last q))"
  proof
    fix q assume "q \<in> set (load_queries col0)"
    then obtain s where q: "q = str_strip s" by (auto simp: load_queries_def)
    show "str_strip q = q \<and> (q \<noteq> [] \<longrightarrow> \<not> py_isspace (hd q) \<and> \<not> py_isspace (last q))"
      unfolding q using str_strip_idem [of s] str_strip_ends [of s] by blast
  qed
  have 4: "\<forall>i < length (dropna col0).
      (load_queries col0 ! i = []) = (\<forall>c \<in> set (dropna col0 ! i). py_isspace c)"
    by (simp add: load_queries_def str_strip_Nil_iff)
  from 1 2 3 4 show ?thesis by blast
qed

theorem load_queries_trimmed_witness:
  "load_queries [Some (str '' pizza recipe  ''), None, Some (str ''sushi''), Some (str ''pizza recipe'')]
     = [str ''pizza recipe'', str ''sushi'', str ''pizza recipe''] \<and>
   length (load_queries [Some (str '' pizza recipe  ''), None, Some (str ''sushi''), Some (str ''pizza recipe'')])
     = length (filter (\<lambda>c. c \<noteq> None)
         [Some (str '' pizza recipe  ''), None, Some (str ''sushi''), Some (str ''pizza recipe'')])"
proof -
  have "load_queries [Some (str '' pizza recipe  ''), None, Some (str ''sushi''), Some (str ''pizza recipe'')]
     = [str ''pizza recipe'', str ''sushi'', str ''pizza recipe'']"
    by (simp add: load_queries_def str_strip_def py_isspace_def str_def)
  then show ?thesis
    using load_queries_trimmed
      [of "[Some (str '' pizza recipe  ''), None, Some (str ''sushi''), Some (str ''pizza recipe'')]"]
    by blast
qed

theorem load_queries_empty_query_counterexample:
  "load_queries [Some (str ''pizza''), Some (str ''   ''), Some [0xA0, 0x2003], None]
     = [str ''pizza'', [], []] \<and>
   [] \<in> set (load_queries [Some (str ''pizza''), Some (str ''   ''), Some [0xA0, 0x2003], None])"
  by (simp add: load_queries_def str_strip_def py_isspace_def str_def)

subsection \<open>The fetch loop and the main content area\<close>

lemma fetch_step_eq:
  "fetch_step client tf n (all_data, log) ic =
     (all_data @ successful_tables client tf [ic],
      log @ batch_report tf n ic @ batch_answer client tf ic)"
  by (cases ic; cases "client (fst ic) (snd ic) tf")
     (simp_all add: fetch_step_def successful_tables_def batch_report_def batch_answer_def)

lemma successful_tables_Cons:
  "successful_tables client tf (ic # ics) =
     successful_tables client tf [ic] @ successful_tables client tf ics"
  by (simp add: successful_tables_def)

lemma foldl_fetch_step:
  "foldl (fetch_step client tf n) (all_data, log) ics =
     (all_data @ successful_tables client tf ics,
      log @ concat (map (\<lambda>ic. batch_report tf n ic @ batch_answer client tf ic) ics))"
proof (induction ics arbitrary: all_data log)
  case Nil
  show ?case by (simp add: successful_tables_def)
next
  case (Cons ic ics)
  show ?case
    by (simp only: foldl_Cons fetch_step_eq Cons.IH successful_tables_Cons [of client tf ic ics]
        list.map concat.simps append_assoc)
qed

lemma fetch_trends_data_eq:
  "fetch_trends_data client queries months =
     (fetch_log client queries months,
      (let all_data = successful_tables client (get_timeframe_string months)
                        (enumerate 0 (query_chunks queries))
       in if all_data \<noteq> []
          then (case merge_all_data all_data of Inl e \<Rightarrow> Inl e | Inr final_df \<Rightarrow> Inr (Some final_df))
          else Inr None))"
  by (simp add: fetch_trends_data_def Let_def foldl_fetch_step fetch_log_def split: sum.splits)

lemma build_payload_calls_append:
  "build_payload_calls (a @ b) = build_payload_calls a @ build_payload_calls b"
  by (simp add: build_payload_calls_def)

lemma chunk_errors_append: "chunk_errors (a @ b) = chunk_errors a @ chunk_errors b"
  by (simp add: chunk_errors_def)

lemma reports_and_calls_append:
  "reports_and_calls (a @ b) = reports_and_calls a @ reports_and_calls b"
  by (simp add: reports_and_calls_def)

lemma download_buttons_append:
  "download_buttons (a @ b) = download_buttons a @ download_buttons b"
  by (simp add: download_buttons_def)

lemma batch_observations:
  "build_payload_calls (batch_report tf n ic @ batch_answer client tf ic) = [snd ic]"
  "chunk_errors (batch_report tf n ic @ batch_answer client tf ic) = failed_chunks client tf [ic]"
  "reports_and_calls (batch_report tf n ic @ batch_answer client tf ic) =
     batch_report tf n ic @ batch_answer client tf ic"
  "download_buttons (batch_report tf n ic @ batch_answer client tf ic) = []"
  by (cases ic; cases "client (fst ic) (snd ic) tf";
      simp add: build_payload_calls_def chunk_errors_def reports_and_calls_def
        download_buttons_def batch_report_def batch_answer_def failed_chunks_def)+

lemma observations_concat:
  "build_payload_calls (concat logs) = concat (map build_payload_calls logs)"
  "chunk_errors (concat logs) = concat (map chunk_errors logs)"
  "reports_and_calls (concat logs) = concat (map reports_and_calls logs)"
  "download_buttons (concat logs) = concat (map download_buttons logs)"
  by (induction logs)
     (simp_all add: build_payload_calls_def chunk_errors_def reports_and_calls_def
        download_buttons_def)

lemma concat_map_singleton: "concat (map (\<lambda>x. [f x]) xs) = map f xs"
  by (induction xs) simp_all

lemma batches_observations:
  "build_payload_calls (concat (map (\<lambda>ic. batch_report tf n ic @ batch_answer client tf ic) ics))
     = map snd ics"
  "chunk_errors (concat (map (\<lambda>ic. batch_report tf n ic @ batch_answer client tf ic) ics))
     = failed_chunks client tf ics"
  "reports_and_calls (concat (map (\<lambda>ic. batch_report tf n ic @ batch_answer client tf ic) ics))
     = concat (map (\<lambda>ic. batch_report tf n ic @ batch_answer client tf ic) ics)"
  "download_buttons (concat (map (\<lambda>ic. batch_report tf n ic @ batch_answer client tf ic) ics))
     = []"
proof -
  show "build_payload_calls (concat (map (\<lambda>ic. batch_report tf n ic @ batch_answer client tf ic) ics))
     = map snd ics"
    by (simp only: observations_concat map_map o_def batch_observations concat_map_singleton)
  have f: "failed_chunks client tf ics = concat (map (\<lambda>ic. failed_chunks client tf [ic]) ics)"
    by (induction ics) (simp_all add: failed_chunks_def)
  show "chunk_errors (concat (map (\<lambda>ic. batch_report tf n ic @ batch_answer client tf ic) ics))
     = failed_chunks client tf ics"
    by (simp only: observations_concat map_map o_def batch_observations f [symmetric])
  show "reports_and_calls (concat (map (\<lambda>ic. batch_report tf n ic @ batch_answer client tf ic) ics))
     = concat (map (\<lambda>ic. batch_report tf n ic @ batch_answer client tf ic) ics)"
    by (simp only: observations_concat map_map o_def batch_observations)
  show "download_buttons (concat (map (\<lambda>ic. batch_report tf n ic @ batch_answer client tf ic) ics))
     = []"
    by (simp only: observations_concat map_map o_def batch_observations) simp
qed

lemma map_snd_enumerate: "map snd (enumerate k xs) = xs"
  by (induction xs arbitrary: k) simp_all

lemma fetch_log_observations:
  "build_payload_calls (fetch_log client queries months) = query_chunks queries"
  "chunk_errors (fetch_log client queries months)
     = failed_chunks client (get_timeframe_string months) (enumerate 0 (query_chunks queries))"
  "download_buttons (fetch_log client queries months) = []"
proof -
  show "build_payload_calls (fetch_log client queries months) = query_chunks queries"
    unfolding fetch_log_def build_payload_calls_append batches_observations map_snd_enumerate
    by (simp add: build_payload_calls_def)
  show "chunk_errors (fetch_log client queries months)
     = failed_chunks client (get_timeframe_string months) (enumerate 0 (query_chunks queries))"
    unfolding fetch_log_def chunk_errors_append batches_observations
    by (simp add: chunk_errors_def)
  show "download_buttons (fetch_log client queries months) = []"
    unfolding fetch_log_def download_buttons_append batches_observations
    by (simp add: download_buttons_def)
qed

lemma progress_reports_append:
  "progress_reports (a @ b) = progress_reports a @ progress_reports b"
  by (simp add: progress_reports_def)

lemma progress_reports_concat:
  "progress_reports (concat logs) = concat (map progress_reports logs)"
  by (induction logs) (simp_all add: progress_reports_def)

lemma progress_reports_batch:
  "progress_reports (batch_report tf n ic @ batch_answer client tf ic) = [(fst ic + 1, n)]"
  by (cases ic; cases "client (fst ic) (snd ic) tf")
     (simp_all add: progress_reports_def batch_report_def batch_answer_def)

lemma fst_enumerate: "map fst (enumerate k xs) = [k..<k + length xs]"
  by (simp add: enumerate_eq_zip)

lemma fetch_log_progress_reports:
  "progress_reports (fetch_log client queries months)
     = map (\<lambda>i. (i + 1, length (query_chunks queries))) [0..<length (query_chunks queries)]"
proof -
  let ?n = "length (query_chunks queries)"
  let ?ics = "enumerate 0 (query_chunks queries)"
  have "progress_reports (concat (map (\<lambda>ic. batch_report (get_timeframe_string months) ?n ic @
            batch_answer client (get_timeframe_string months) ic) ?ics))
          = map (\<lambda>ic. (fst ic + 1, ?n)) ?ics"
    by (simp only: progress_reports_concat map_map o_def progress_reports_batch
        concat_map_singleton)
  also have "\<dots> = map (\<lambda>i. (i + 1, ?n)) (map fst ?ics)" by (simp only: map_map o_def)
  also have "\<dots> = map (\<lambda>i. (i + 1, ?n)) [0..<?n]" by (simp only: fst_enumerate add_0)
  finally have mid: "progress_reports (concat (map (\<lambda>ic. batch_report (get_timeframe_string months) ?n ic @
            batch_answer client (get_timeframe_string months) ic) ?ics))
          = map (\<lambda>i. (i + 1, ?n)) [0..<?n]" .
  have pre: "progress_reports
      [St_info_fetching (length queries) months, St_progress_new, St_empty_new] = []"
    by (simp add: progress_reports_def)
  have post: "progress_reports [Progress_bar_empty, Status_text_empty] = []"
    by (simp add: progress_reports_def)
  show ?thesis
    by (simp only: fetch_log_def progress_reports_append mid pre post append_Nil append_Nil2)
qed

lemma fetch_log_reports_and_calls:
  "reports_and_calls (fetch_log client queries months)
     = concat (map (\<lambda>ic. batch_report (get_timeframe_string months) (length (query_chunks queries)) ic @
                          batch_answer client (get_timeframe_string months) ic)
                 (enumerate 0 (query_chunks queries)))"
  unfolding fetch_log_def reports_and_calls_append batches_observations
  by (simp add: reports_and_calls_def)

text \<open>
  C8, as the code has it. In one run of \<open>fetch_trends_data\<close> the progress bar is
  set once per batch, to \<open>(i + 1) / n\<close> for the batch at position \<open>i\<close> of \<open>n\<close>, and
  the reports and client calls of the log are, batch after batch: the progress
  report, the status text, the call of \<^verbatim>\<open>build_payload\<close>, and then what the client
  answers. The report of a batch is made before the fetch of that batch is issued
  (lines 48-50 come before lines 53-56), whether the fetch then succeeds or fails.
\<close>

theorem progress_reported_before_each_fetch:
  "fetch_trends_data client queries months = (log, r) \<Longrightarrow>
   progress_reports log
     = map (\<lambda>i. (i + 1, length (query_chunks queries))) [0..<length (query_chunks queries)] \<and>
   reports_and_calls log
     = concat (map (\<lambda>ic. batch_report (get_timeframe_string months) (length (query_chunks queries)) ic @
                          batch_answer client (get_timeframe_string months) ic)
                 (enumerate 0 (query_chunks queries)))"
proof -
  assume "fetch_trends_data client queries months = (log, r)"
  then have "log = fetch_log client queries months"
    by (simp add: fetch_trends_data_eq)
  then show ?thesis
    by (simp only: fetch_log_progress_reports fetch_log_reports_and_calls)
qed

theorem progress_reported_before_each_fetch_witness:
  "fetch_trends_data failing_client [str ''a'', str ''b'', str ''c'', str ''d'', str ''e'', str ''f''] 24 =
     ([St_info_fetching 6 24, St_progress_new, St_empty_new,
       Progress_bar_progress 1 2, Status_text_text 1 2 [str ''a'', str ''b'', str ''c'', str ''d'', str ''e''],
       Build_payload [str ''a'', str ''b'', str ''c'', str ''d'', str ''e''] ''today 24-m'', Interest_over_time,
       St_error_chunk [str ''a'', str ''b'', str ''c'', str ''d'', str ''e''] (Provider_error ''429''),
       Progress_bar_progress 2 2, Status_text_text 2 2 [str ''f''],
       Build_payload [str ''f''] ''today 24-m'', Interest_over_time,
       St_error_chunk [str ''f''] (Provider_error ''429''),
       Progress_bar_empty, Status_text_empty], Inr None) \<and>
   progress_reports (fst (fetch_trends_data failing_client [str ''a'', str ''b'', str ''c'', str ''d'', str ''e'', str ''f''] 24))
     = [(1, 2), (2, 2)]"
proof -
  have run: "fetch_trends_data failing_client [str ''a'', str ''b'', str ''c'', str ''d'', str ''e'', str ''f''] 24 =
     ([St_info_fetching 6 24, St_progress_new, St_empty_new,
       Progress_bar_progress 1 2, Status_text_text 1 2 [str ''a'', str ''b'', str ''c'', str ''d'', str ''e''],
       Build_payload [str ''a'', str ''b'', str ''c'', str ''d'', str ''e''] ''today 24-m'', Interest_over_time,
       St_error_chunk [str ''a'', str ''b'', str ''c'', str ''d'', str ''e''] (Provider_error ''429''),
       Progress_bar_progress 2 2, Status_text_text 2 2 [str ''f''],
       Build_payload [str ''f''] ''today 24-m'', Interest_over_time,
       St_error_chunk [str ''f''] (Provider_error ''429''),
       Progress_bar_empty, Status_text_empty], Inr None)"
    by code_simp
  from progress_reported_before_each_fetch [OF run]
  have "progress_reports (fst (fetch_trends_data failing_client [str ''a'', str ''b'', str ''c'', str ''d'', str ''e'', str ''f''] 24))
     = map (\<lambda>i. (i + 1, length (query_chunks [str ''a'', str ''b'', str ''c'', str ''d'', str ''e'', str ''f''])))
         [0..<length (query_chunks [str ''a'', str ''b'', str ''c'', str ''d'', str ''e'', str ''f''])]"
    by (simp only: run fst_conv)
  moreover have "length (query_chunks [str ''a'', str ''b'', str ''c'', str ''d'', str ''e'', str ''f'']) = 2"
    by code_simp
  ultimately show ?thesis using run by (simp add: upt_rec)
qed

theorem report_precedes_fetch_counterexample:
  "fst (fetch_trends_data empty_table_client [str ''pizza''] 12) =
     [St_info_fetching 1 12, St_progress_new, St_empty_new,
      Progress_bar_progress 1 1, Status_text_text 1 1 [str ''pizza''],
      Build_payload [str ''pizza''] ''today 12-m'', Interest_over_time,
      Progress_bar_empty, Status_text_empty] \<and>
   \<not> reports_follow_fetches 0 (fst (fetch_trends_data empty_table_client [str ''pizza''] 12))"
  by code_simp

text \<open>
  C4. When the loaded query list is empty, the main content area shows the
  "no queries" error and nothing else: no progress report, no call of the trends
  client and no download button, whatever the client and the button would do.
\<close>

theorem no_queries_stops_before_fetch:
  "load_queries col0 = [] \<Longrightarrow>
   main_content client pressed (Some (Parsed (col0 # cols))) time_range = [St_error_no_queries] \<and>
   reports_and_calls (main_content client pressed (Some (Parsed (col0 # cols))) time_range) = [] \<and>
   download_buttons (main_content client pressed (Some (Parsed (col0 # cols))) time_range) = []"
  by (simp add: main_content_def read_csv_def iloc_col0_def reports_and_calls_def
      download_buttons_def)

theorem no_queries_stops_before_fetch_witness:
  "load_queries [None, None] = [] \<and>
   main_content empty_table_client True (Some (Parsed [[None, None], [Some (str ''x''), Some (str ''y'')]])) 12
     = [St_error_no_queries]"
proof -
  have e: "load_queries [None, None] = []" by (simp add: load_queries_def)
  from no_queries_stops_before_fetch [OF e, of empty_table_client True "[[Some (str ''x''), Some (str ''y'')]]" 12]
  show ?thesis using e by simp
qed

lemma successful_tables_Nil_iff:
  "(successful_tables client tf batches = []) =
   (\<forall>(i, chunk) \<in> set batches. \<forall>data. client i chunk tf \<noteq> Returns data)"
  by (induction batches) (auto simp: successful_tables_def split: response.splits)

text \<open>
  C6. When the client fails every batch, \<open>fetch_trends_data\<close> returns \<open>None\<close>; the
  main content area then ends with the "no data" warning after the log of the fetch,
  and offers no download button.
\<close>

theorem all_batches_fail_no_data:
  assumes "\<forall>(i, chunk) \<in> set (enumerate 0 (query_chunks queries)).
             \<forall>data. client i chunk (get_timeframe_string months) \<noteq> Returns data"
  shows "snd (fetch_trends_data client queries months) = Inr None \<and>
    (load_queries col0 = queries \<and> queries \<noteq> [] \<longrightarrow>
       main_content client True (Some (Parsed (col0 # cols))) months
         = [St_success_loaded (length queries), St_preview queries, St_button, St_subheader months] @
           fst (fetch_trends_data client queries months) @ [St_warning_no_data] \<and>
       download_buttons (main_content client True (Some (Parsed (col0 # cols))) months) = [])"
proof -
  from assms have none: "successful_tables client (get_timeframe_string months)
      (enumerate 0 (query_chunks queries)) = []"
    by (simp only: successful_tables_Nil_iff)
  have run: "fetch_trends_data client queries months = (fetch_log client queries months, Inr None)"
    by (simp add: fetch_trends_data_eq none)
  have "download_buttons
     ([St_success_loaded (length queries), St_preview queries, St_button, St_subheader months] @
      fetch_log client queries months @ [St_warning_no_data]) = []"
    unfolding download_buttons_append fetch_log_observations
    by (simp add: download_buttons_def)
  with run show ?thesis
    by (simp add: main_content_def read_csv_def iloc_col0_def)
qed

theorem all_batches_fail_no_data_witness:
  "snd (fetch_trends_data failing_client [str ''pizza''] 12) = Inr None \<and>
   main_content failing_client True (Some (Parsed [[Some (str '' pizza '')]])) 12
     = [St_success_loaded 1, St_preview [str ''pizza''], St_button, St_subheader 12,
        St_info_fetching 1 12, St_progress_new, St_empty_new,
        Progress_bar_progress 1 1, Status_text_text 1 1 [str ''pizza''],
        Build_payload [str ''pizza''] ''today 12-m'', Interest_over_time,
        St_error_chunk [str ''pizza''] (Provider_error ''429''),
        Progress_bar_empty, Status_text_empty, St_warning_no_data]"
proof -
  have a: "\<forall>(i, chunk) \<in> set (enumerate 0 (query_chunks [str ''pizza''])).
             \<forall>data. failing_client i chunk (get_timeframe_string 12) \<noteq> Returns data"
    by (simp add: failing_client_def)
  have q: "load_queries [Some (str '' pizza '')] = [str ''pizza'']"
    by (simp add: load_queries_def str_strip_def py_isspace_def str_def)
  have l: "fst (fetch_trends_data failing_client [str ''pizza''] 12) =
       [St_info_fetching 1 12, St_progress_new, St_empty_new,
        Progress_bar_progress 1 1, Status_text_text 1 1 [str ''pizza''],
        Build_payload [str ''pizza''] ''today 12-m'', Interest_over_time,
        St_error_chunk [str ''pizza''] (Provider_error ''429''),
        Progress_bar_empty, Status_text_empty]"
    by code_simp
  from all_batches_fail_no_data
    [of "[str ''pizza'']" failing_client 12 "[Some (str '' pizza '')]" "[]", OF a] q l
  show ?thesis by simp
qed

subsection \<open>Merger\<close>

lemma keep_first_Nil: "keep_first seen [] = []"
  by (simp add: keep_first_def)

lemma keep_first_Cons:
  "keep_first seen (c # cols) =
     (if fst c \<in> set seen then keep_first (fst c # seen) cols
      else c # keep_first (fst c # seen) cols)"
  by (simp add: keep_first_def)

lemma keep_first_names:
  "set (map fst (keep_first seen cols)) = set (map fst cols) - set seen"
  by (induction cols arbitrary: seen) (auto simp: keep_first_Nil keep_first_Cons)

lemma keep_first_distinct: "distinct (map fst (keep_first seen cols))"
proof (induction cols arbitrary: seen)
  case Nil
  show ?case by (simp add: keep_first_Nil)
next
  case (Cons c cols)
  have "fst c \<notin> set (map fst (keep_first (fst c # seen) cols))"
    unfolding keep_first_names by simp
  with Cons show ?case by (simp add: keep_first_Cons)
qed

lemma keep_first_find:
  "name \<notin> set seen \<Longrightarrow>
   find (\<lambda>c. fst c = name) (keep_first seen cols) = find (\<lambda>c. fst c = name) cols"
proof (induction cols arbitrary: seen)
  case Nil
  show ?case by (simp add: keep_first_Nil)
next
  case (Cons c cols)
  show ?case
  proof (cases "fst c = name")
    case True
    with Cons.prems show ?thesis by (simp add: keep_first_Cons)
  next
    case False
    with Cons.prems have "name \<notin> set (fst c # seen)" by auto
    from Cons.IH [OF this] False show ?thesis by (simp add: keep_first_Cons)
  qed
qed

lemma keep_first_id:
  "distinct (map fst cols) \<Longrightarrow> set (map fst cols) \<inter> set seen = {} \<Longrightarrow>
   keep_first seen cols = cols"
proof (induction cols arbitrary: seen)
  case Nil
  show ?case by (simp add: keep_first_Nil)
next
  case (Cons c cols)
  from Cons.prems have "fst c \<notin> set seen" by auto
  moreover from Cons.prems have "set (map fst cols) \<inter> set (fst c # seen) = {}" by auto
  moreover from Cons.prems have "distinct (map fst cols)" by simp
  ultimately show ?case using Cons.IH by (simp add: keep_first_Cons)
qed

lemma aligned_columns_names: "map fst (aligned_columns new df) = map fst (columns df)"
  by (simp add: aligned_columns_def case_prod_unfold o_def)

lemma pd_concat_axis1_Inr:
  assumes "pd_concat_axis1 objs = Inr f"
  shows "objs \<noteq> [] \<and> columns f = concat (map (aligned_columns (index f)) objs)"
proof (cases objs)
  case Nil
  with assms show ?thesis by (simp add: pd_concat_axis1_def)
next
  case (Cons df0 rest)
  show ?thesis
  proof (cases "list_all (\<lambda>df. index df = index df0) rest")
    case True
    with assms Cons have f: "f = \<lparr>index = index df0, columns = concat (map columns objs)\<rparr>"
      by (simp add: pd_concat_axis1_def)
    from True Cons have "\<forall>df \<in> set objs. index df = index df0"
      by (simp add: list_all_iff)
    then have "map (aligned_columns (index df0)) objs = map columns objs"
      by (simp add: aligned_columns_def)
    then have "concat (map (aligned_columns (index df0)) objs) = concat (map columns objs)"
      by (simp only:)
    moreover have "index f = index df0" and "columns f = concat (map columns objs)"
      by (simp_all add: f)
    ultimately show ?thesis using Cons by (simp only:) simp
  next
    case False
    with assms Cons show ?thesis
      by (auto simp: pd_concat_axis1_def Let_def split: if_splits)
  qed
qed

lemma pd_concat_axis1_defined:
  assumes "objs \<noteq> []" and "\<forall>df \<in> set objs. distinct (index df)"
  shows "\<exists>f. pd_concat_axis1 objs = Inr f"
proof -
  from assms(1) obtain df0 rest where objs: "objs = df0 # rest" by (cases objs) auto
  from assms(2) have ok: "\<not> list_ex (\<lambda>df. \<not> distinct (index df)) (df0 # rest)"
    unfolding objs by (simp add: list_ex_iff)
  show ?thesis
    unfolding objs pd_concat_axis1_def list.case Let_def
    by (simp only: ok if_False split: if_splits) simp
qed

lemma merge_all_data_Inr:
  assumes "merge_all_data tables = Inr m"
  shows "tables \<noteq> [] \<and>
    columns m = keep_first [] (concat (map (aligned_columns (index m)) tables))"
proof -
  from assms obtain f where f: "pd_concat_axis1 tables = Inr f"
    and m: "m = loc_columns (map Not (duplicated [] (map fst (columns f)))) f"
    by (auto simp: merge_all_data_def split: sum.splits)
  from m have "index m = index f" and "columns m = keep_first [] (columns f)"
    by (simp_all add: loc_columns_def keep_first_def)
  with pd_concat_axis1_Inr [OF f] show ?thesis by simp
qed

lemma merge_all_data_defined:
  assumes "tables \<noteq> []" and "\<forall>t \<in> set tables. distinct (index t)"
  shows "\<exists>m. merge_all_data tables = Inr m"
  using pd_concat_axis1_defined [OF assms] by (auto simp: merge_all_data_def)

lemma concat_aligned_names:
  "set (map fst (concat (map (aligned_columns new) tables)))
     = (\<Union>t \<in> set tables. fst ` set (columns t))"
proof -
  have "map fst (concat (map (aligned_columns new) tables))
          = concat (map (\<lambda>t. map fst (columns t)) tables)"
    by (simp add: map_concat o_def aligned_columns_names)
  then show ?thesis by auto
qed

text \<open>
  C2. For a non-empty list of fetched tables: when every table has distinct row
  labels the merge returns a table, and whenever it returns a table no two of its
  columns share a name, its column names are exactly the names that occur in the
  inputs, and the column it holds for a name is the first column of that name in
  left-to-right batch order (with its cells aligned to the merged row labels).
\<close>

theorem merge_keeps_first_column_of_each_name:
  "tables \<noteq> [] \<Longrightarrow>
   ((\<forall>t \<in> set tables. distinct (index t)) \<longrightarrow> (\<exists>m. merge_all_data tables = Inr m)) \<and>
   (\<forall>m. merge_all_data tables = Inr m \<longrightarrow>
      distinct (map fst (columns m)) \<and>
      set (map fst (columns m)) = (\<Union>t \<in> set tables. fst ` set (columns t)) \<and>
      (\<forall>name \<in> set (map fst (columns m)).
         find (\<lambda>c. fst c = name) (columns m)
           = find (\<lambda>c. fst c = name) (concat (map (aligned_columns (index m)) tables))))"
proof (intro conjI impI allI)
  assume "tables \<noteq> []" and "\<forall>t \<in> set tables. distinct (index t)"
  then show "\<exists>m. merge_all_data tables = Inr m" by (rule merge_all_data_defined)
next
  fix m assume "merge_all_data tables = Inr m"
  then have cols: "columns m = keep_first [] (concat (map (aligned_columns (index m)) tables))"
    using merge_all_data_Inr by blast
  show "distinct (map fst (columns m))"
    unfolding cols by (rule keep_first_distinct)
  show "set (map fst (columns m)) = (\<Union>t \<in> set tables. fst ` set (columns t))"
    unfolding cols keep_first_names concat_aligned_names by simp
  show "\<forall>name \<in> set (map fst (columns m)).
         find (\<lambda>c. fst c = name) (columns m)
           = find (\<lambda>c. fst c = name) (concat (map (aligned_columns (index m)) tables))"
  proof
    fix name
    have "find (\<lambda>c. fst c = name) (keep_first [] (concat (map (aligned_columns (index m)) tables)))
        = find (\<lambda>c. fst c = name) (concat (map (aligned_columns (index m)) tables))"
      by (rule keep_first_find) simp
    then show "find (\<lambda>c. fst c = name) (columns m)
           = find (\<lambda>c. fst c = name) (concat (map (aligned_columns (index m)) tables))"
      by (simp only: cols [symmetric])
  qed
qed

theorem merge_keeps_first_column_of_each_name_witness:
  "merge_all_data
     [\<lparr>index = [1::nat, 2], columns = [(str ''pizza'', [Some (10::int), Some 20]), (str ''sushi'', [Some 30, None])]\<rparr>,
      \<lparr>index = [1, 2], columns = [(str ''pizza'', [Some 99, Some 98]), (str ''ramen'', [Some 5, Some 6])]\<rparr>]
   = Inr \<lparr>index = [1, 2],
          columns = [(str ''pizza'', [Some 10, Some 20]), (str ''sushi'', [Some 30, None]),
                     (str ''ramen'', [Some 5, Some 6])]\<rparr> \<and>
   distinct (map fst [(str ''pizza'', [Some (10::int), Some 20]), (str ''sushi'', [Some 30, None]),
                      (str ''ramen'', [Some 5, Some 6])])"
proof -
  let ?tables = "[\<lparr>index = [1::nat, 2], columns = [(str ''pizza'', [Some (10::int), Some 20]), (str ''sushi'', [Some 30, None])]\<rparr>,
      \<lparr>index = [1, 2], columns = [(str ''pizza'', [Some 99, Some 98]), (str ''ramen'', [Some 5, Some 6])]\<rparr>]"
  let ?m = "\<lparr>index = [1::nat, 2],
          columns = [(str ''pizza'', [Some (10::int), Some 20]), (str ''sushi'', [Some 30, None]),
                     (str ''ramen'', [Some 5, Some 6])]\<rparr>"
  have run: "merge_all_data ?tables = Inr ?m" by code_simp
  have ne: "?tables \<noteq> []" by simp
  from merge_keeps_first_column_of_each_name [OF ne] run
  have "distinct (map fst (columns ?m))" by blast
  with run show ?thesis by simp
qed

text \<open>
  C7, as the code has it. For two tables whose column names are distinct within
  each table and disjoint between the two, the merged table has the columns of the
  first table, in their order, followed by the columns of the second, in their
  order. Without distinct names inside a table the later repetitions are dropped
  by the step of line 75.
\<close>

theorem merge_of_disjoint_tables_keeps_order:
  assumes "distinct (map fst (columns t1))" and "distinct (map fst (columns t2))"
    and "set (map fst (columns t1)) \<inter> set (map fst (columns t2)) = {}"
    and "merge_all_data [t1, t2] = Inr m"
  shows "map fst (columns m) = map fst (columns t1) @ map fst (columns t2) \<and>
    columns m = aligned_columns (index m) t1 @ aligned_columns (index m) t2"
proof -
  let ?cols = "aligned_columns (index m) t1 @ aligned_columns (index m) t2"
  from merge_all_data_Inr [OF assms(4)] have cols: "columns m = keep_first [] ?cols"
    by simp
  have names: "map fst ?cols = map fst (columns t1) @ map fst (columns t2)"
    by (simp add: aligned_columns_names)
  from assms(1-3) have "distinct (map fst ?cols)"
    unfolding names by simp
  then have "keep_first [] ?cols = ?cols"
    by (rule keep_first_id) simp
  with cols names show ?thesis by simp
qed

theorem merge_of_disjoint_tables_keeps_order_witness:
  "merge_all_data
     [\<lparr>index = [1::nat, 2], columns = [(str ''pizza'', [Some (10::int), Some 20]), (str ''sushi'', [Some 30, None])]\<rparr>,
      \<lparr>index = [2, 3], columns = [(str ''ramen'', [Some 5, Some 6])]\<rparr>]
   = Inr \<lparr>index = [1, 2, 3],
          columns = [(str ''pizza'', [Some 10, Some 20, None]), (str ''sushi'', [Some 30, None, None]),
                     (str ''ramen'', [None, Some 5, Some 6])]\<rparr> \<and>
   map fst [(str ''pizza'', [Some (10::int), Some 20, None]), (str ''sushi'', [Some 30, None, None]),
            (str ''ramen'', [None, Some 5, Some 6])]
     = map fst [(str ''pizza'', [Some (10::int), Some 20]), (str ''sushi'', [Some 30, None])] @
       map fst [(str ''ramen'', [Some (5::int), Some 6])]"
proof -
  let ?t1 = "\<lparr>index = [1::nat, 2], columns = [(str ''pizza'', [Some (10::int), Some 20]), (str ''sushi'', [Some 30, None])]\<rparr>"
  let ?t2 = "\<lparr>index = [2::nat, 3], columns = [(str ''ramen'', [Some (5::int), Some 6])]\<rparr>"
  let ?m = "\<lparr>index = [1::nat, 2, 3],
          columns = [(str ''pizza'', [Some (10::int), Some 20, None]), (str ''sushi'', [Some 30, None, None]),
                     (str ''ramen'', [None, Some 5, Some 6])]\<rparr>"
  have run: "merge_all_data [?t1, ?t2] = Inr ?m" by code_simp
  have d1: "distinct (map fst (columns ?t1))" by (simp add: str_def)
  have d2: "distinct (map fst (columns ?t2))" by simp
  have dj: "set (map fst (columns ?t1)) \<inter> set (map fst (columns ?t2)) = {}"
    by (simp add: str_def)
  from merge_of_disjoint_tables_keeps_order [OF d1 d2 dj run]
  have "map fst (columns ?m) = map fst (columns ?t1) @ map fst (columns ?t2)" by blast
  with run show ?thesis by simp
qed

theorem merge_of_disjoint_tables_counterexample:
  "set (map fst [(str ''pizza'', [Some (1::int)]), (str ''pizza'', [Some 2])])
     \<inter> set (map fst [(str ''sushi'', [Some (3::int)])]) = {} \<and>
   merge_all_data
     [\<lparr>index = [1::nat], columns = [(str ''pizza'', [Some (1::int)]), (str ''pizza'', [Some 2])]\<rparr>,
      \<lparr>index = [1], columns = [(str ''sushi'', [Some 3])]\<rparr>]
   = Inr \<lparr>index = [1], columns = [(str ''pizza'', [Some 1]), (str ''sushi'', [Some 3])]\<rparr> \<and>
   map fst [(str ''pizza'', [Some (1::int)]), (str ''sushi'', [Some 3])]
     \<noteq> map fst [(str ''pizza'', [Some (1::int)]), (str ''pizza'', [Some 2])] @
       map fst [(str ''sushi'', [Some (3::int)])]"
proof -
  have "merge_all_data
     [\<lparr>index = [1::nat], columns = [(str ''pizza'', [Some (1::int)]), (str ''pizza'', [Some 2])]\<rparr>,
      \<lparr>index = [1], columns = [(str ''sushi'', [Some 3])]\<rparr>]
   = Inr \<lparr>index = [1], columns = [(str ''pizza'', [Some 1]), (str ''sushi'', [Some 3])]\<rparr>"
    by code_simp
  moreover have "str ''sushi'' \<noteq> str ''pizza''" by (simp add: str_def)
  ultimately show ?thesis by auto
qed

subsection \<open>Partial success\<close>

lemma failed_chunks_mem:
  "(i, chunk) \<in> set batches \<Longrightarrow>
   client i chunk tf = Build_payload_raises e \<or> client i chunk tf = Interest_over_time_raises e \<Longrightarrow>
   (chunk, e) \<in> set (failed_chunks client tf batches)"
  by (induction batches) (auto simp: failed_chunks_def)

lemma merge_all_data_names:
  assumes "merge_all_data tables = Inr m"
  shows "set (map fst (columns m)) = (\<Union>t \<in> set tables. fst ` set (columns t))"
proof -
  from merge_all_data_Inr [OF assms]
  have "columns m = keep_first [] (concat (map (aligned_columns (index m)) tables))" by simp
  then show ?thesis
    by (simp only: keep_first_names concat_aligned_names) simp
qed

text \<open>
  C5. In a run of \<open>fetch_trends_data\<close>, whatever the client answers: every batch is
  handed to \<^verbatim>\<open>build_payload\<close>, in order, also after a batch has failed; the
  per-chunk errors of the log are exactly the failed batches with their exceptions,
  so every failure is reported; and the result is computed from the tables of the
  answered batches alone, each taken as returned (less its \<^verbatim>\<open>isPartial\<close> column):
  \<open>None\<close> when there is none, their merge otherwise. The column names of a final
  table are those of the answered batches, so a failed batch adds no column.
\<close>

theorem fetch_continues_past_failed_batches:
  assumes "fetch_trends_data client queries months = (log, r)"
  shows "build_payload_calls log = query_chunks queries \<and>
    chunk_errors log
      = failed_chunks client (get_timeframe_string months) (enumerate 0 (query_chunks queries)) \<and>
    (\<forall>(i, chunk) \<in> set (enumerate 0 (query_chunks queries)). \<forall>e.
        client i chunk (get_timeframe_string months) = Build_payload_raises e \<or>
        client i chunk (get_timeframe_string months) = Interest_over_time_raises e
        \<longrightarrow> (chunk, e) \<in> set (chunk_errors log)) \<and>
    r = (if successful_tables client (get_timeframe_string months)
              (enumerate 0 (query_chunks queries)) = []
         then Inr None
         else case merge_all_data (successful_tables client (get_timeframe_string months)
                     (enumerate 0 (query_chunks queries))) of
                Inl e \<Rightarrow> Inl e | Inr final_df \<Rightarrow> Inr (Some final_df)) \<and>
    (\<forall>final_df. r = Inr (Some final_df) \<longrightarrow>
        set (map fst (columns final_df))
          = (\<Union>t \<in> set (successful_tables client (get_timeframe_string months)
                            (enumerate 0 (query_chunks queries))). fst ` set (columns t)))"
proof -
  let ?tf = "get_timeframe_string months"
  let ?batches = "enumerate 0 (query_chunks queries)"
  let ?ok = "successful_tables client ?tf ?batches"
  from assms have log: "log = fetch_log client queries months"
    and r: "r = (if ?ok = [] then Inr None
                 else case merge_all_data ?ok of Inl e \<Rightarrow> Inl e | Inr final_df \<Rightarrow> Inr (Some final_df))"
    by (auto simp: fetch_trends_data_eq Let_def)
  have calls: "build_payload_calls log = query_chunks queries"
    unfolding log by (rule fetch_log_observations)
  have errs: "chunk_errors log = failed_chunks client ?tf ?batches"
    unfolding log by (rule fetch_log_observations)
  have reported: "\<forall>(i, chunk) \<in> set ?batches. \<forall>e.
        client i chunk ?tf = Build_payload_raises e \<or>
        client i chunk ?tf = Interest_over_time_raises e
        \<longrightarrow> (chunk, e) \<in> set (chunk_errors log)"
    unfolding errs using failed_chunks_mem by fast
  have cols: "\<forall>final_df. r = Inr (Some final_df) \<longrightarrow>
        set (map fst (columns final_df)) = (\<Union>t \<in> set ?ok. fst ` set (columns t))"
  proof (intro allI impI)
    fix final_df assume "r = Inr (Some final_df)"
    with r have ne: "?ok \<noteq> []" and m: "merge_all_data ?ok = Inr final_df"
      by (auto split: if_splits sum.splits)
    from merge_all_data_names [OF m]
    show "set (map fst (columns final_df)) = (\<Union>t \<in> set ?ok. fst ` set (columns t))" .
  qed
  from calls errs reported r cols show ?thesis by blast
qed

theorem fetch_continues_past_failed_batches_witness:
  "fetch_trends_data first_batch_fails_client [str ''a'', str ''b'', str ''c'', str ''d'', str ''e'', str ''f''] 12 =
     ([St_info_fetching 6 12, St_progress_new, St_empty_new,
       Progress_bar_progress 1 2, Status_text_text 1 2 [str ''a'', str ''b'', str ''c'', str ''d'', str ''e''],
       Build_payload [str ''a'', str ''b'', str ''c'', str ''d'', str ''e''] ''today 12-m'',
       St_error_chunk [str ''a'', str ''b'', str ''c'', str ''d'', str ''e''] (Provider_error ''429''),
       Progress_bar_progress 2 2, Status_text_text 2 2 [str ''f''],
       Build_payload [str ''f''] ''today 12-m'', Interest_over_time,
       Progress_bar_empty, Status_text_empty],
      Inr (Some \<lparr>index = [1], columns = [(str ''f'', [Some 50])]\<rparr>)) \<and>
   build_payload_calls (fst (fetch_trends_data first_batch_fails_client
       [str ''a'', str ''b'', str ''c'', str ''d'', str ''e'', str ''f''] 12))
     = query_chunks [str ''a'', str ''b'', str ''c'', str ''d'', str ''e'', str ''f'']"
proof -
  have run: "fetch_trends_data first_batch_fails_client [str ''a'', str ''b'', str ''c'', str ''d'', str ''e'', str ''f''] 12 =
     ([St_info_fetching 6 12, St_progress_new, St_empty_new,
       Progress_bar_progress 1 2, Status_text_text 1 2 [str ''a'', str ''b'', str ''c'', str ''d'', str ''e''],
       Build_payload [str ''a'', str ''b'', str ''c'', str ''d'', str ''e''] ''today 12-m'',
       St_error_chunk [str ''a'', str ''b'', str ''c'', str ''d'', str ''e''] (Provider_error ''429''),
       Progress_bar_progress 2 2, Status_text_text 2 2 [str ''f''],
       Build_payload [str ''f''] ''today 12-m'', Interest_over_time,
       Progress_bar_empty, Status_text_empty],
      Inr (Some \<lparr>index = [1], columns = [(str ''f'', [Some 50])]\<rparr>))"
    by code_simp
  from fetch_continues_past_failed_batches [OF run]
  have "build_payload_calls (fst (fetch_trends_data first_batch_fails_client
       [str ''a'', str ''b'', str ''c'', str ''d'', str ''e'', str ''f''] 12))
     = query_chunks [str ''a'', str ''b'', str ''c'', str ''d'', str ''e'', str ''f'']"
    by (simp only: run fst_conv)
  with run show ?thesis by (simp only:)
qed

end
